theory Spec2Isabelle
  imports Complex_Main "HOL-Library.Word"
begin

unbundle bit_operations_syntax

section \<open>Numbers and arrays of the source language\<close>

text \<open>
  The library is TypeScript. A \<open>number\<close> is modelled as a real (rounding, overflow and
  signed zeros of IEEE doubles are not represented), extended by the two values that the
  code can produce besides numbers: \<open>NaN\<close> (arithmetic on \<open>undefined\<close>, \<open>0/0\<close>) and
  \<open>Undefined\<close> (an empty array slot, or a read past the end of an array).
\<close>

datatype jsval = Num real | NaN | Undefined

text \<open>\<open>a * b\<close> and \<open>a + b\<close> on numbers: \<open>undefined\<close> converts to \<open>NaN\<close>, which propagates.\<close>

fun jmul :: "jsval \<Rightarrow> jsval \<Rightarrow> jsval" where
  "jmul (Num a) (Num b) = Num (a * b)"
| "jmul _ _ = NaN"

fun jadd :: "jsval \<Rightarrow> jsval \<Rightarrow> jsval" where
  "jadd (Num a) (Num b) = Num (a + b)"
| "jadd _ _ = NaN"

fun jsub :: "jsval \<Rightarrow> jsval \<Rightarrow> jsval" where
  "jsub (Num a) (Num b) = Num (a - b)"
| "jsub _ _ = NaN"

text \<open>\<open>xs[i]\<close>: a read outside the array yields \<open>undefined\<close>.\<close>

definition aget :: "jsval list \<Rightarrow> int \<Rightarrow> jsval" where
  "aget xs i = (if 0 \<le> i \<and> i < int (length xs) then xs ! nat i else Undefined)"

text \<open>
  \<open>xs[i] = v\<close> for an integer \<open>i\<close>: inside the array the slot is replaced; past the end
  the array grows, the slots in between staying empty; a negative \<open>i\<close> creates a named
  property and leaves the indexed elements and the length alone.
\<close>

definition aset :: "jsval list \<Rightarrow> int \<Rightarrow> jsval \<Rightarrow> jsval list" where
  "aset xs i v =
     (if i < 0 then xs
      else if i < int (length xs) then xs[nat i := v]
      else xs @ replicate (nat i - length xs) Undefined @ [v])"

text \<open>\<open>xs.length = n\<close>: truncates, or extends with empty slots.\<close>

definition set_length :: "nat \<Rightarrow> jsval list \<Rightarrow> jsval list" where
  "set_length n xs = take n xs @ replicate (n - length xs) Undefined"

text \<open>\<open>xs.fill(v, start)\<close> with \<open>0 \<le> start\<close>: every slot from \<open>start\<close> on becomes \<open>v\<close>.\<close>

definition fill_from :: "jsval \<Rightarrow> nat \<Rightarrow> jsval list \<Rightarrow> jsval list" where
  "fill_from v start xs = take start xs @ replicate (length xs - start) v"

text \<open>\<open>xs.slice(a, b)\<close> with \<open>0 \<le> a\<close>: a fresh array holding the elements at \<open>a, \<dots>, b - 1\<close>
  that exist.\<close>

definition slice :: "nat \<Rightarrow> nat \<Rightarrow> jsval list \<Rightarrow> jsval list" where
  "slice a b xs = take (b - a) (drop a xs)"

section \<open>math.ts\<close>

text \<open>
  \<open>isPowerOfTwo(v)\<close> is \<open>v > 1 && !(v & (v - 1))\<close>. The operator \<open>&\<close> works on the
  operands converted to 32-bit integers; \<open>v\<close> is an array length here, a natural number.
\<close>

definition isPowerOfTwo :: "nat \<Rightarrow> bool" where
  "isPowerOfTwo v \<longleftrightarrow>
     1 < v \<and> (word_of_nat v AND word_of_nat (v - 1) :: 32 word) = 0"

text \<open>What the documentation of \<open>isPowerOfTwo\<close> says it decides.\<close>

definition pow2_gt1 :: "nat \<Rightarrow> bool" where
  "pow2_gt1 v \<longleftrightarrow> 1 < v \<and> (\<exists>k. v = 2 ^ k)"

text \<open>\<open>Math.atan2(y, x)\<close> on reals (the result lies in \<open>(-\<pi>, \<pi>]\<close>).\<close>

definition atan2 :: "real \<Rightarrow> real \<Rightarrow> real" where
  "atan2 y x =
     (if 0 < x then arctan (y / x)
      else if x < 0 then (if 0 \<le> y then arctan (y / x) + pi else arctan (y / x) - pi)
      else if 0 < y then pi / 2
      else if y < 0 then - (pi / 2)
      else 0)"

text \<open>\<open>fftBinToMagnitudePhase(re, im)\<close>; the object returned is the pair
  \<open>(magnitude, phase)\<close>.\<close>

fun fftBinToMagnitudePhase :: "jsval \<Rightarrow> jsval \<Rightarrow> jsval \<times> jsval" where
  "fftBinToMagnitudePhase (Num re) (Num im) =
     (Num (sqrt (re * re + im * im)), Num (atan2 im re))"
| "fftBinToMagnitudePhase _ _ = (NaN, NaN)"

text \<open>\<open>magnitudePhaseToComplex(magnitude, phase)\<close>, returning \<open>[real, imaginary]\<close>.\<close>

fun magnitudePhaseToComplex :: "jsval \<Rightarrow> jsval \<Rightarrow> jsval \<times> jsval" where
  "magnitudePhaseToComplex (Num m) (Num ph) = (Num (cos ph * m), Num (sin ph * m))"
| "magnitudePhaseToComplex _ _ = (NaN, NaN)"

text \<open>\<open>freqToFftBin\<close>: \<open>Math.round\<close> rounds to the nearest integer, halves upwards.\<close>

definition freqToFftBin :: "real \<Rightarrow> real \<Rightarrow> real \<Rightarrow> int" where
  "freqToFftBin freq sampleRate signalLength =
     \<lfloor>freq * signalLength / sampleRate + 1 / 2\<rfloor>"

text \<open>
  \<open>CosineWindow\<close>: the constructor fills \<open>multipliers[i] = sin(\<pi> i / (length - 1))\<close>; for
  \<open>length = 1\<close> the quotient is \<open>0 / 0\<close>, which is \<open>NaN\<close>.
\<close>

record CosineWindow =
  multipliers :: "jsval list"
  wlength :: nat

definition cosine_multiplier :: "nat \<Rightarrow> nat \<Rightarrow> jsval" where
  "cosine_multiplier len i =
     (if len = 1 then NaN else Num (sin (pi * real i / (real len - 1))))"

definition new_CosineWindow :: "nat \<Rightarrow> CosineWindow" where
  "new_CosineWindow len =
     \<lparr>multipliers = map (cosine_multiplier len) [0..<len], wlength = len\<rparr>"

text \<open>\<open>apply(signal)\<close> multiplies the first \<open>min(signal.length, length)\<close> samples in place;
  the function returns the array after the call.\<close>

definition window_apply :: "CosineWindow \<Rightarrow> jsval list \<Rightarrow> jsval list" where
  "window_apply w signal =
     map (\<lambda>i. if i < min (length signal) (wlength w)
               then jmul (signal ! i) (aget (multipliers w) (int i))
               else signal ! i)
         [0..<length signal]"

text \<open>\<open>createComplexArray(size)\<close>: \<open>2 * size\<close> zeros.\<close>

definition createComplexArray :: "nat \<Rightarrow> jsval list" where
  "createComplexArray sz = replicate (sz * 2) (Num 0)"

section \<open>Errors\<close>

text \<open>
  Every \<open>throw\<close> of the code is a value. \<open>InvalidInput\<close> carries the message of an
  \<open>Error\<close> thrown by the validation of the library itself; \<open>KernelFailure\<close> is an error
  raised by the constructor of the external FFT kernel; \<open>TypeError\<close> is a property read
  on \<open>undefined\<close>; \<open>RangeError\<close> is an invalid array length.
\<close>

datatype error = InvalidInput string | KernelFailure | TypeError | RangeError

section \<open>util.ts\<close>

text \<open>
  \<open>step(array, step)\<close>: with \<open>step = 1\<close> a copy of the whole array. Otherwise an array
  of length \<open>array.length / step\<close> is allocated, which fails unless the quotient is a
  natural number, and receives the elements at \<open>0, step, 2 step, \<dots>\<close>.
\<close>

definition step :: "jsval list \<Rightarrow> nat \<Rightarrow> error + jsval list" where
  "step array st =
     (if st = 1 then Inr array
      else if st = 0 \<or> length array mod st \<noteq> 0 then Inl RangeError
      else Inr (map (\<lambda>j. array ! (j * st)) [0..<length array div st]))"

section \<open>hftnn.ts: the bin mapper\<close>

text \<open>
  \<open>intervalToFreq(x, fundamental, intervalsInOctave)\<close>, with \<open>Math.pow(2, y)\<close> as the real
  power \<open>2 powr y\<close>. The function is used to select the bin of a harmonic. The
  doubles that the code computes are rounded and overflow to \<open>Infinity\<close>, so order
  properties of the computed frequencies (two close arguments can give the same double)
  are not properties of this real-valued function and are not stated here.
\<close>

definition intervalToFreq :: "real \<Rightarrow> real \<Rightarrow> real \<Rightarrow> real" where
  "intervalToFreq x fundamental intervalsInOctave =
     fundamental * 2 powr (x / intervalsInOctave)"

section \<open>hftnn.ts: data\<close>

record HFTNNProperties =
  sampleRate :: real
  fundamental :: real
  frequenciesInOctave :: nat
  octaveRange :: nat
  extraBins :: nat
  interpolatedChunks :: nat
  dftSize :: nat

text \<open>A valid \<open>HFTNNProperties\<close> value, as the documentation of the fields asks.\<close>

definition valid_props :: "HFTNNProperties \<Rightarrow> bool" where
  "valid_props p \<longleftrightarrow>
     0 < sampleRate p \<and> 0 < fundamental p \<and> 0 < frequenciesInOctave p
     \<and> 0 < octaveRange p \<and> pow2_gt1 (dftSize p)"

text \<open>A single HFTNN: pairs \<open>[magnitude, phase]\<close>.\<close>

type_synonym frame = "(jsval \<times> jsval) list"

text \<open>
  The FFT kernel (the package \<open>fft.js\<close>) is not part of the library; it is a parameter.
  \<open>construct_ok size\<close> tells whether \<open>new FFT(size)\<close> returns rather than throws;
  \<open>realTransform size data i\<close> and \<open>inverseTransform size data i\<close> are the values that
  the transforms of a plan of that size write to slot \<open>i\<close> of their output array. The
  kernel writes the \<open>2 * size\<close> slots of the output array it is given and does not touch
  its input.
\<close>

record fft_kernel =
  construct_ok :: "nat \<Rightarrow> bool"
  realTransform :: "nat \<Rightarrow> jsval list \<Rightarrow> nat \<Rightarrow> jsval"
  inverseTransform :: "nat \<Rightarrow> jsval list \<Rightarrow> nat \<Rightarrow> jsval"

text \<open>The output array \<open>out\<close> after the kernel has written it.\<close>

definition kernel_output :: "(nat \<Rightarrow> jsval) \<Rightarrow> jsval list \<Rightarrow> jsval list" where
  "kernel_output written out = map written [0..<length out]"

text \<open>The kernel accepts every size that is a power of two greater than 1.\<close>

definition kernel_ok :: "fft_kernel \<Rightarrow> bool" where
  "kernel_ok k \<longleftrightarrow> (\<forall>n. pow2_gt1 n \<longrightarrow> construct_ok k n)"

text \<open>
  Arrays that the caller and the library share live in a store: an address is an index
  into the list of arrays, and a new array is appended.
\<close>

type_synonym heap = "jsval list list"

definition alloc :: "heap \<Rightarrow> jsval list \<Rightarrow> nat \<times> heap" where
  "alloc h xs = (length h, h @ [xs])"

section \<open>hftnn.ts: hftnnForward\<close>

text \<open>
  The array \<open>bins\<close>: created with a length and empty slots, written at integer indices.
  A write at an index past the end lengthens the array.
\<close>

record bin_cache =
  blen :: nat
  slots :: "int \<Rightarrow> (jsval \<times> jsval) option"

definition new_bins :: "nat \<Rightarrow> bin_cache" where
  "new_bins n = \<lparr>blen = n, slots = (\<lambda>_. None)\<rparr>"

text \<open>\<open>computeBinIfNecessary(idx)\<close> followed by the read of \<open>bins[idx]\<close>.\<close>

definition computeBin :: "jsval list \<Rightarrow> int \<Rightarrow> bin_cache \<Rightarrow> bin_cache \<times> (jsval \<times> jsval)" where
  "computeBin transform idx bins =
     (case slots bins idx of
        Some v \<Rightarrow> (bins, v)
      | None \<Rightarrow>
          (let fftIdx = idx * 2;
               v = fftBinToMagnitudePhase (aget transform fftIdx) (aget transform (fftIdx + 1))
           in (\<lparr>blen = (if 0 \<le> idx then max (blen bins) (nat idx + 1) else blen bins),
                slots = (slots bins)(idx := Some v)\<rparr>, v)))"

text \<open>The body of the loop over the bins below the harmonic's bin.\<close>

definition low_step :: "jsval list \<Rightarrow> int \<Rightarrow> int \<Rightarrow> bin_cache \<times> frame \<Rightarrow> bin_cache \<times> frame" where
  "low_step transform binIdx extraBinIdx st =
     (let idx = binIdx + extraBinIdx in
      if idx < 0 then (fst st, snd st @ [(Num 0, Num 0)])
      else (let r = computeBin transform idx (fst st) in (fst r, snd st @ [snd r])))"

text \<open>The harmonic's own bin.\<close>

definition center_step :: "jsval list \<Rightarrow> int \<Rightarrow> bin_cache \<times> frame \<Rightarrow> bin_cache \<times> frame" where
  "center_step transform binIdx st =
     (let r = computeBin transform binIdx (fst st) in (fst r, snd st @ [snd r]))"

text \<open>The body of the loop over the bins above the harmonic's bin.\<close>

definition high_step :: "jsval list \<Rightarrow> int \<Rightarrow> int \<Rightarrow> bin_cache \<times> frame \<Rightarrow> bin_cache \<times> frame" where
  "high_step transform binIdx extraBinIdx st =
     (let idx = binIdx + extraBinIdx in
      if int (blen (fst st)) \<le> idx then (fst st, snd st @ [(Num 0, Num 0)])
      else (let r = computeBin transform idx (fst st) in (fst r, snd st @ [snd r])))"

text \<open>The bin of harmonic interval \<open>j\<close> for a signal of \<open>n\<close> samples.\<close>

definition harmonic_bin :: "HFTNNProperties \<Rightarrow> nat \<Rightarrow> nat \<Rightarrow> int" where
  "harmonic_bin p n j =
     freqToFftBin (intervalToFreq (real j) (fundamental p) (real (frequenciesInOctave p)))
       (sampleRate p) (real n)"

text \<open>The values of \<open>extraBinIdx\<close> in the first loop, \<open>-extraBins, \<dots>, -1\<close>, and in the
  second, \<open>1, \<dots>, extraBins\<close>.\<close>

definition low_offsets :: "nat \<Rightarrow> int list" where
  "low_offsets e = map (\<lambda>i. int i - int e) [0..<e]"

definition high_offsets :: "nat \<Rightarrow> int list" where
  "high_offsets e = map (\<lambda>i. int i + 1) [0..<e]"

text \<open>The body of the two nested loops over octaves and frequencies; the state is the
  counter \<open>j\<close>, the array \<open>bins\<close> and the result \<open>hft\<close>.\<close>

definition interval_step ::
  "jsval list \<Rightarrow> HFTNNProperties \<Rightarrow> nat \<Rightarrow> nat \<times> bin_cache \<times> frame \<Rightarrow> nat \<times> bin_cache \<times> frame" where
  "interval_step transform p n st =
     (let binIdx = harmonic_bin p n (fst st);
          st1 = fold (low_step transform binIdx) (low_offsets (extraBins p)) (snd st);
          st2 = center_step transform binIdx st1;
          st3 = fold (high_step transform binIdx) (high_offsets (extraBins p)) st2
      in (Suc (fst st), st3))"

text \<open>
  The part of \<open>hftnnForward\<close> after the transform: \<open>bins\<close> is created with
  \<open>transform.length / 2\<close> empty slots (the length of \<open>transform\<close> is even: it is an array
  of \<open>createComplexArray\<close>), \<open>hft\<close> is empty, and the loops run over the octaves
  \<open>1, \<dots>, octaveRange\<close> and the frequencies \<open>0, \<dots>, frequenciesInOctave - 1\<close>.
\<close>

definition harvest :: "jsval list \<Rightarrow> HFTNNProperties \<Rightarrow> nat \<Rightarrow> frame" where
  "harvest transform p n =
     snd (snd (fold (\<lambda>oct. fold (\<lambda>i. interval_step transform p n) [0..<frequenciesInOctave p])
                 [1..<Suc (octaveRange p)]
                 (0, new_bins (length transform div 2), [])))"

text \<open>
  \<open>hftnnForward(signal, properties, forwardWindow)\<close>. The signal is an array of the
  store, which the window is applied to in place; an absent argument is \<open>None\<close>. The
  result is the store after the call and the HFTNN or the error.
\<close>

definition hftnnForward ::
  "fft_kernel \<Rightarrow> heap \<Rightarrow> nat option \<Rightarrow> HFTNNProperties option \<Rightarrow> CosineWindow option
     \<Rightarrow> heap \<times> (error + frame)" where
  "hftnnForward k h signal properties forwardWindow =
     (case signal of
        None \<Rightarrow> (h, Inl (InvalidInput ''No signal has been specified.''))
      | Some a \<Rightarrow>
          if \<not> isPowerOfTwo (length (h ! a))
          then (h, Inl (InvalidInput
                  ''The given signals length must be a power of two and higher than 1.''))
          else
            (case properties of
               None \<Rightarrow> (h, Inl (InvalidInput ''No properties have been given.''))
             | Some p \<Rightarrow>
                 if \<not> construct_ok k (dftSize p) then (h, Inl KernelFailure)
                 else
                   (let w = (case forwardWindow of
                               None \<Rightarrow> new_CosineWindow (length (h ! a))
                             | Some fw \<Rightarrow>
                                 if wlength fw = length (h ! a) then fw
                                 else new_CosineWindow (length (h ! a)));
                        windowed = window_apply w (h ! a);
                        transform = kernel_output (realTransform k (dftSize p) windowed)
                                      (createComplexArray (dftSize p))
                    in (h[a := windowed], Inr (harvest transform p (length windowed))))))"

section \<open>hftnn.ts: hftnnForwardTemporal\<close>

text \<open>
  The loop variable \<open>i\<close> advances by \<open>dftSize / 2\<close>, a multiple of one half; the model
  keeps \<open>i2 = 2 i\<close>, a natural number. \<open>loop_cond\<close> is \<open>i < signal.length\<close> and
  \<open>late_disjunct\<close> is \<open>i >= signal.length + dftSize / 2\<close>.
\<close>

definition loop_cond :: "nat \<Rightarrow> nat \<Rightarrow> bool" where
  "loop_cond len i2 \<longleftrightarrow> i2 < 2 * len"

definition late_disjunct :: "HFTNNProperties \<Rightarrow> nat \<Rightarrow> nat \<Rightarrow> bool" where
  "late_disjunct p len i2 \<longleftrightarrow> 2 * len + dftSize p \<le> i2"

text \<open>
  The chunk: \<open>signal.slice(i, i + dftSize)\<close> (the bounds are truncated to integers), its
  length set to \<open>dftSize\<close>, filled with \<open>0\<close> from its old length on.
\<close>

definition make_chunk :: "HFTNNProperties \<Rightarrow> jsval list \<Rightarrow> nat \<Rightarrow> jsval list" where
  "make_chunk p signal i2 =
     (let chunk = slice (i2 div 2) ((i2 + 2 * dftSize p) div 2) signal;
          chunkLen = length chunk
      in fill_from (Num 0) chunkLen (set_length (dftSize p) chunk))"

text \<open>\<open>j++; if (j > interpolatedChunks) j = 0\<close>.\<close>

definition next_j :: "HFTNNProperties \<Rightarrow> nat \<Rightarrow> nat" where
  "next_j p j = (if interpolatedChunks p < j + 1 then 0 else j + 1)"

lemma isPowerOfTwo_gt1: "isPowerOfTwo n \<Longrightarrow> 1 < n"
  by (simp add: isPowerOfTwo_def)

lemma length_window_apply [simp]: "length (window_apply w xs) = length xs"
  by (simp add: window_apply_def)

lemma length_set_length [simp]: "length (set_length n xs) = n"
  by (simp add: set_length_def)

lemma length_fill_from [simp]: "start \<le> length xs \<Longrightarrow> length (fill_from v start xs) = length xs"
  by (simp add: fill_from_def)

lemma length_slice_le: "length (slice a b xs) \<le> b - a"
  by (simp add: slice_def)

lemma length_make_chunk [simp]: "length (make_chunk p signal i2) = dftSize p"
proof -
  have "length (slice (i2 div 2) ((i2 + 2 * dftSize p) div 2) signal) \<le> dftSize p"
    using length_slice_le [of "i2 div 2" "(i2 + 2 * dftSize p) div 2" signal] by simp
  then show ?thesis
    by (simp add: make_chunk_def Let_def)
qed

lemma hftnnForward_Inr_pow2:
  "snd (hftnnForward k h (Some c) sp w) = Inr fr \<Longrightarrow> isPowerOfTwo (length (h ! c))"
  by (auto simp: hftnnForward_def Let_def split: if_splits option.splits)

lemma hftnnForward_length_heap [simp]:
  "length (fst (hftnnForward k h sa sp w)) = length h"
  by (auto simp: hftnnForward_def Let_def split: if_splits option.splits)

lemma hftnnForward_other_cell:
  "a \<noteq> c \<Longrightarrow> fst (hftnnForward k h (Some c) sp w) ! a = h ! a"
  by (auto simp: hftnnForward_def Let_def split: if_splits option.splits)

text \<open>
  The loop of \<open>hftnnForwardTemporal\<close>. \<open>a\<close> is the caller's signal, \<open>h\<close> the store and
  \<open>hftnns\<close> the result so far. An error of \<open>hftnnForward\<close> leaves the loop.
\<close>

function chunk_loop ::
  "fft_kernel \<Rightarrow> HFTNNProperties \<Rightarrow> CosineWindow \<Rightarrow> nat \<Rightarrow> nat \<Rightarrow> nat \<Rightarrow> heap \<Rightarrow> frame list
     \<Rightarrow> heap \<times> (error + frame list)" where
  "chunk_loop k p forwardWindow a i2 j h hftnns =
     (if loop_cond (length (h ! a)) i2 then
        (if j = 0 \<or> late_disjunct p (length (h ! a)) i2 then
           (let ch = alloc h (make_chunk p (h ! a) i2);
                r = hftnnForward k (snd ch) (Some (fst ch)) (Some p) (Some forwardWindow)
            in case snd r of
                 Inl e \<Rightarrow> (fst r, Inl e)
               | Inr fr \<Rightarrow>
                   chunk_loop k p forwardWindow a (i2 + dftSize p) (next_j p j) (fst r)
                     (hftnns @ [fr]))
         else chunk_loop k p forwardWindow a (i2 + dftSize p) (next_j p j) h hftnns)
      else (h, Inr hftnns))"
  by pat_completeness auto
termination
proof (relation "measures
    [\<lambda>(k, p, w, a, i2, j, h, acc). a + 1 - length h,
     \<lambda>(k, p, w, a, i2, j, h, acc). 2 * length (h ! a) - i2,
     \<lambda>(k, p, w, a, i2, j, h, acc). if j = 0 then 0 else Suc (interpolatedChunks p + 2 - j)]",
    goal_cases)
  case 1
  show ?case by simp
next
  case (2 k p w a i2 j h hftnns ch r fr)
  let ?c = "length h"
  let ?h1 = "h @ [make_chunk p (h ! a) i2]"
  from 2 have r: "snd (hftnnForward k ?h1 (Some ?c) (Some p) (Some w)) = Inr fr"
    and c: "loop_cond (length (h ! a)) i2"
    by (simp_all add: alloc_def)
  from hftnnForward_Inr_pow2 [OF r] have d: "1 < dftSize p"
    using isPowerOfTwo_gt1 by fastforce
  show ?case
  proof (cases "a < length h")
    case True
    then have "fst (hftnnForward k ?h1 (Some ?c) (Some p) (Some w)) ! a = h ! a"
      by (simp add: hftnnForward_other_cell nth_append)
    moreover from c d have "2 * length (h ! a) - (i2 + dftSize p) < 2 * length (h ! a) - i2"
      by (simp add: loop_cond_def)
    ultimately show ?thesis
      using True 2 by (simp add: alloc_def)
  next
    case False
    then have "a - length h < Suc a - length h"
      by arith
    with 2 show ?thesis
      by (simp add: alloc_def)
  qed
next
  case (3 k p w a i2 j h hftnns)
  then show ?case
    by (auto simp: loop_cond_def late_disjunct_def next_j_def)
qed

text \<open>\<open>hftnnForwardTemporal(signal, properties)\<close>, the signal being the array at \<open>a\<close>.\<close>

definition hftnnForwardTemporal ::
  "fft_kernel \<Rightarrow> heap \<Rightarrow> nat \<Rightarrow> HFTNNProperties \<Rightarrow> heap \<times> (error + frame list)" where
  "hftnnForwardTemporal k h a p =
     (if length (h ! a) < dftSize p then
        (let h1 = h[a := set_length (dftSize p) (h ! a)];
             r = hftnnForward k h1 (Some a) (Some p) None
         in (fst r, case snd r of Inl e \<Rightarrow> Inl e | Inr fr \<Rightarrow> Inr [fr]))
      else chunk_loop k p (new_CosineWindow (dftSize p)) a 0 0 h [])"

section \<open>hftnn.ts: hftnnInverse\<close>

text \<open>
  One write sequence of the loop body: for each offset, the pair \<open>hft[i]\<close> is converted
  and written to the slots \<open>(baseBin + offset) * 2\<close> and the next one, and \<open>i\<close> advances.
  Reading a component of \<open>hft[i]\<close> past the end of \<open>hft\<close> is a \<open>TypeError\<close>.
\<close>

fun scatter :: "frame \<Rightarrow> int \<Rightarrow> int list \<Rightarrow> jsval list \<times> nat \<Rightarrow> error + jsval list \<times> nat" where
  "scatter hft baseBin [] st = Inr st"
| "scatter hft baseBin (off # offs) st =
     (if snd st < length hft then
        (let complex = magnitudePhaseToComplex (fst (hft ! snd st)) (snd (hft ! snd st));
             extraBin = (baseBin + off) * 2
         in scatter hft baseBin offs
              (aset (aset (fst st) extraBin (fst complex)) (extraBin + 1) (snd complex),
               snd st + 1))
      else Inl TypeError)"

lemma scatter_index:
  "scatter hft baseBin offs st = Inr st' \<Longrightarrow> snd st' = snd st + length offs"
  by (induction offs arbitrary: st) (auto simp: Let_def split: if_splits)

text \<open>
  The \<open>while\<close> loop. Its body runs the same statements for the offsets
  \<open>-extraBins, \<dots>, -1\<close>, then for the base bin, then for \<open>1, \<dots>, extraBins\<close>.
\<close>

function inverse_loop ::
  "HFTNNProperties \<Rightarrow> frame \<Rightarrow> nat \<Rightarrow> nat \<Rightarrow> jsval list \<Rightarrow> error + jsval list" where
  "inverse_loop p hft i interval bins =
     (if i < length hft then
        (case scatter hft (harmonic_bin p (dftSize p) interval)
                (low_offsets (extraBins p) @ [0] @ high_offsets (extraBins p)) (bins, i) of
           Inl e \<Rightarrow> Inl e
         | Inr st \<Rightarrow> inverse_loop p hft (snd st) (Suc interval) (fst st))
      else Inr bins)"
  by pat_completeness auto
termination
proof (relation "measure (\<lambda>(p, hft, i, interval, bins). length hft - i)", goal_cases)
  case 1
  show ?case by simp
next
  case (2 p hft i interval bins st)
  from scatter_index [OF 2(2)] 2(1) show ?case by simp
qed

text \<open>\<open>hftnnInverse(hft, properties)\<close>; the frame is only read.\<close>

definition hftnnInverse ::
  "fft_kernel \<Rightarrow> frame option \<Rightarrow> HFTNNProperties option \<Rightarrow> error + jsval list" where
  "hftnnInverse k hft properties =
     (case hft of
        None \<Rightarrow> Inl (InvalidInput ''No HFTNN has been specified.'')
      | Some fr \<Rightarrow>
          (case properties of
             None \<Rightarrow> Inl (InvalidInput ''No properties have been given.'')
           | Some p \<Rightarrow>
               if \<not> construct_ok k (dftSize p) then Inl KernelFailure
               else
                 (case inverse_loop p fr 0 0 (createComplexArray (dftSize p)) of
                    Inl e \<Rightarrow> Inl e
                  | Inr bins \<Rightarrow>
                      step (kernel_output (inverseTransform k (dftSize p) bins)
                              (createComplexArray (dftSize p))) 1)))"

section \<open>A reference kernel\<close>

text \<open>
  Modelled from the spec: the FFT kernel is external (section 6 of the specification
  gives its contract: a plan for a power-of-two size greater than 1, transforms writing
  interleaved \<open>[re0, im0, re1, im1, \<dots>]\<close> output). \<open>dft_kernel\<close> is the discrete
  Fourier transform computed by its defining sums. It is an instance to run the
  library on; the theorems below hold for every kernel.
\<close>

definition jsum :: "jsval list \<Rightarrow> jsval" where
  "jsum xs = foldr jadd xs (Num 0)"

definition dft_forward :: "nat \<Rightarrow> jsval list \<Rightarrow> nat \<Rightarrow> jsval" where
  "dft_forward n data i =
     jsum (map (\<lambda>t. jmul (aget data (int t))
                      (Num (if even i then cos (2 * pi * real (i div 2) * real t / real n)
                            else - sin (2 * pi * real (i div 2) * real t / real n))))
             [0..<n])"

definition dft_inverse :: "nat \<Rightarrow> jsval list \<Rightarrow> nat \<Rightarrow> jsval" where
  "dft_inverse n data i =
     jmul (Num (1 / real n))
       (jsum (map (\<lambda>b. if even i
                       then jsub (jmul (aget data (2 * int b))
                                    (Num (cos (2 * pi * real b * real (i div 2) / real n))))
                                 (jmul (aget data (2 * int b + 1))
                                    (Num (sin (2 * pi * real b * real (i div 2) / real n))))
                       else jadd (jmul (aget data (2 * int b))
                                    (Num (sin (2 * pi * real b * real (i div 2) / real n))))
                                 (jmul (aget data (2 * int b + 1))
                                    (Num (cos (2 * pi * real b * real (i div 2) / real n)))))
               [0..<n]))"

definition dft_kernel :: fft_kernel where
  "dft_kernel =
     \<lparr>construct_ok = isPowerOfTwo, realTransform = dft_forward,
      inverseTransform = dft_inverse\<rparr>"

section \<open>Powers of two\<close>

lemma and_pred_even: "(2 * m) AND (2 * m - 1) = 2 * (m AND (m - 1))" if "0 < m" for m :: nat
proof -
  have "(2 * m - 1) div 2 = m - 1" using that by simp
  moreover have "odd (2 * m - 1)" using that by simp
  ultimately show ?thesis
    by (subst and_rec) simp
qed

lemma and_pred_odd: "(2 * m + 1) AND (2 * m + 1 - 1) = 2 * m" for m :: nat
  by (subst and_rec) simp

lemma pow2_and_pred: "0 < n \<Longrightarrow> (n AND (n - 1) = 0) \<longleftrightarrow> (\<exists>k. n = 2 ^ k)" for n :: nat
proof (induction n rule: less_induct)
  case (less n)
  show ?case
  proof (cases "even n")
    case True
    then obtain m where m: "n = 2 * m" by (elim evenE)
    with less.prems have mpos: "0 < m" by simp
    have ih: "(m AND (m - 1) = 0) \<longleftrightarrow> (\<exists>k. m = 2 ^ k)"
      using less.IH [of m] m mpos by simp
    have "(\<exists>k. n = 2 ^ k) \<longleftrightarrow> (\<exists>k. m = 2 ^ k)"
    proof
      assume "\<exists>k. n = 2 ^ k"
      then obtain k where k: "n = 2 ^ k" ..
      with True have "k \<noteq> 0" by (cases k) auto
      then obtain k' where "k = Suc k'" by (cases k) auto
      with k m show "\<exists>k. m = 2 ^ k" by auto
    next
      assume "\<exists>k. m = 2 ^ k"
      then obtain k where "m = 2 ^ k" ..
      with m have "n = 2 ^ Suc k" by simp
      then show "\<exists>k. n = 2 ^ k" ..
    qed
    moreover have "n AND (n - 1) = 2 * (m AND (m - 1))"
      unfolding m by (rule and_pred_even [OF mpos])
    ultimately show ?thesis
      using ih by simp
  next
    case False
    then obtain m where m: "n = 2 * m + 1" by (elim oddE)
    have "(\<exists>k. n = 2 ^ k) \<longleftrightarrow> m = 0"
    proof
      assume "\<exists>k. n = 2 ^ k"
      then obtain k where k: "n = 2 ^ k" ..
      with False have "k = 0" by (cases k) auto
      with k m show "m = 0" by simp
    next
      assume "m = 0"
      with m have "n = 2 ^ 0" by simp
      then show "\<exists>k. n = 2 ^ k" ..
    qed
    with m show ?thesis
      using and_pred_odd [of m] by simp
  qed
qed

lemma pow2_isPowerOfTwo: "pow2_gt1 n \<Longrightarrow> isPowerOfTwo n"
proof -
  assume a: "pow2_gt1 n"
  then have "n AND (n - 1) = 0" using pow2_and_pred [of n] by (auto simp: pow2_gt1_def)
  then have "(word_of_nat (n AND (n - 1)) :: 32 word) = 0" by simp
  then have "(word_of_nat n AND word_of_nat (n - 1) :: 32 word) = 0"
    by (simp add: of_nat_and_eq)
  with a show ?thesis by (simp add: isPowerOfTwo_def pow2_gt1_def)
qed

lemma and_nat_le: "n AND m \<le> n" for n m :: nat
  by (metis AND_upper1 of_nat_0_le_iff of_nat_and_eq of_nat_le_iff)

lemma word32_of_nat_0: "(word_of_nat x :: 32 word) = 0 \<Longrightarrow> x < 2 ^ 32 \<Longrightarrow> x = 0"
proof -
  assume "(word_of_nat x :: 32 word) = 0" and b: "x < 2 ^ 32"
  then have "2 ^ 32 dvd x"
    by (simp add: word_of_nat_eq_0_iff)
  then have "x = 0 \<or> 2 ^ 32 \<le> x"
    by (auto dest: dvd_imp_le)
  with b show "x = 0" by simp
qed

lemma isPowerOfTwo_pow2: "n < 2 ^ 32 \<Longrightarrow> isPowerOfTwo n \<Longrightarrow> pow2_gt1 n"
proof -
  assume b: "n < 2 ^ 32" and a: "isPowerOfTwo n"
  then have "(word_of_nat n AND word_of_nat (n - 1) :: 32 word) = 0"
    unfolding isPowerOfTwo_def by (elim conjE)
  then have "(word_of_nat (n AND (n - 1)) :: 32 word) = 0"
    by (simp only: of_nat_and_eq)
  moreover have "n AND (n - 1) < 2 ^ 32"
    using and_nat_le [of n "n - 1"] b by simp
  ultimately have "n AND (n - 1) = 0"
    by (rule word32_of_nat_0)
  with a show ?thesis using pow2_and_pred [of n] by (auto simp: isPowerOfTwo_def pow2_gt1_def)
qed

lemma kernel_ok_dft_kernel: "kernel_ok dft_kernel"
  by (simp add: kernel_ok_def dft_kernel_def pow2_isPowerOfTwo)

section \<open>The forward transforms: length of the result, the chunking loop\<close>

text \<open>The length of an HFTNN for given properties.\<close>

definition frame_length :: "HFTNNProperties \<Rightarrow> nat" where
  "frame_length p = octaveRange p * frequenciesInOctave p * (2 * extraBins p + 1)"

lemma fold_count:
  assumes "\<And>x s. m (f x s) = m s + c"
  shows "m (fold f xs s) = m s + length xs * c"
  using assms by (induction xs arbitrary: s) simp_all

lemma length_low_step: "length (snd (low_step tr b e st)) = length (snd st) + 1"
  by (simp add: low_step_def Let_def)

lemma length_center_step: "length (snd (center_step tr b st)) = length (snd st) + 1"
  by (simp add: center_step_def Let_def)

lemma length_high_step: "length (snd (high_step tr b e st)) = length (snd st) + 1"
  by (simp add: high_step_def Let_def)

lemma length_interval_step:
  "length (snd (snd (interval_step tr p n st))) = length (snd (snd st)) + (2 * extraBins p + 1)"
proof -
  have low: "\<And>b xs s. length (snd (fold (low_step tr b) xs s)) = length (snd s) + length xs * 1"
    by (rule fold_count) (rule length_low_step)
  have high: "\<And>b xs s. length (snd (fold (high_step tr b) xs s)) = length (snd s) + length xs * 1"
    by (rule fold_count) (rule length_high_step)
  show ?thesis
    by (simp add: interval_step_def Let_def low high length_center_step
        low_offsets_def high_offsets_def)
qed

lemma length_harvest: "length (harvest tr p n) = frame_length p"
proof -
  have inner: "\<And>xs s. length (snd (snd (fold (\<lambda>i. interval_step tr p n) xs s)))
      = length (snd (snd s)) + length xs * (2 * extraBins p + 1)"
    by (rule fold_count) (rule length_interval_step)
  have outer: "\<And>xs s. length (snd (snd (fold (\<lambda>oct. fold (\<lambda>i. interval_step tr p n)
        [0..<frequenciesInOctave p]) xs s)))
      = length (snd (snd s)) + length xs * (frequenciesInOctave p * (2 * extraBins p + 1))"
    by (rule fold_count) (simp add: inner)
  show ?thesis
    by (simp add: harvest_def outer frame_length_def algebra_simps)
qed

text \<open>The window that \<open>hftnnForward\<close> applies to a signal of \<open>n\<close> samples, and the HFTNN it
  returns for a signal with the samples \<open>xs\<close>.\<close>

definition choose_window :: "CosineWindow option \<Rightarrow> nat \<Rightarrow> CosineWindow" where
  "choose_window fw n =
     (case fw of None \<Rightarrow> new_CosineWindow n
      | Some w \<Rightarrow> if wlength w = n then w else new_CosineWindow n)"

definition forward_frame ::
  "fft_kernel \<Rightarrow> HFTNNProperties \<Rightarrow> CosineWindow option \<Rightarrow> jsval list \<Rightarrow> frame" where
  "forward_frame k p fw xs =
     harvest (kernel_output (realTransform k (dftSize p) (window_apply (choose_window fw (length xs)) xs))
                (createComplexArray (dftSize p))) p (length xs)"

lemma hftnnForward_ok:
  assumes "isPowerOfTwo (length (h ! a))" and "construct_ok k (dftSize p)"
  shows "hftnnForward k h (Some a) (Some p) fw
           = (h[a := window_apply (choose_window fw (length (h ! a))) (h ! a)],
              Inr (forward_frame k p fw (h ! a)))"
  using assms
  by (simp add: hftnnForward_def Let_def choose_window_def forward_frame_def split: option.splits)

lemma length_forward_frame: "length (forward_frame k p fw xs) = frame_length p"
  by (simp add: forward_frame_def length_harvest)

text \<open>The number of iterations of the loop of \<open>hftnnForwardTemporal\<close> (the start offsets
  \<open>0, dftSize / 2, \<dots>\<close> below the length of the signal), and the iterations from \<open>n\<close>
  on that are multiples of \<open>interpolatedChunks + 1\<close>.\<close>

definition hop_count :: "HFTNNProperties \<Rightarrow> nat \<Rightarrow> nat" where
  "hop_count p len = (2 * len + dftSize p - 1) div dftSize p"

lemma hop_count_iff: "0 < dftSize p \<Longrightarrow> n < hop_count p len \<longleftrightarrow> n * dftSize p < 2 * len"
proof -
  assume d: "0 < dftSize p"
  have "n < hop_count p len \<longleftrightarrow> Suc n \<le> (2 * len + dftSize p - 1) div dftSize p"
    by (simp add: hop_count_def Suc_le_eq)
  also have "\<dots> \<longleftrightarrow> Suc n * dftSize p \<le> 2 * len + dftSize p - 1"
    using d by (simp only: less_eq_div_iff_mult_less_eq)
  also have "\<dots> \<longleftrightarrow> n * dftSize p < 2 * len"
    using d by auto
  finally show ?thesis .
qed

lemma next_j_mod:
  "next_j p (n mod (interpolatedChunks p + 1)) = Suc n mod (interpolatedChunks p + 1)"
proof -
  let ?m = "interpolatedChunks p + 1"
  have "n mod ?m < ?m" by simp
  show ?thesis
  proof (cases "Suc (n mod ?m) = ?m")
    case True
    then have "Suc n mod ?m = 0"
      by (metis mod_Suc)
    with True show ?thesis by (simp add: next_j_def)
  next
    case False
    then have "Suc n mod ?m = Suc (n mod ?m)"
      by (metis mod_Suc)
    moreover from False have "n mod ?m < interpolatedChunks p"
      using \<open>n mod ?m < ?m\<close> by linarith
    ultimately show ?thesis by (simp add: next_j_def)
  qed
qed

definition kept_hops :: "HFTNNProperties \<Rightarrow> nat \<Rightarrow> nat \<Rightarrow> nat list" where
  "kept_hops p len n = filter (\<lambda>n'. n' mod (interpolatedChunks p + 1) = 0) [n..<hop_count p len]"

lemma chunk_loop_result:
  assumes "a < length h" and "pow2_gt1 (dftSize p)" and "construct_ok k (dftSize p)"
  shows "\<exists>h'. chunk_loop k p w a (n * dftSize p) (n mod (interpolatedChunks p + 1)) h acc
           = (h', Inr (acc @ map (\<lambda>n'. forward_frame k p (Some w) (make_chunk p (h ! a) (n' * dftSize p)))
                             (kept_hops p (length (h ! a)) n)))
         \<and> length h \<le> length h' \<and> h' ! a = h ! a"
  using assms(1)
proof (induction "hop_count p (length (h ! a)) - n" arbitrary: n h acc)
  case 0
  from assms(2) have d: "0 < dftSize p" by (simp add: pow2_gt1_def)
  from 0 have "\<not> n < hop_count p (length (h ! a))" by simp
  then have "\<not> loop_cond (length (h ! a)) (n * dftSize p)"
    using hop_count_iff [OF d] by (simp add: loop_cond_def)
  moreover from 0 have "kept_hops p (length (h ! a)) n = []"
    by (simp add: kept_hops_def)
  ultimately show ?case by simp
next
  case (Suc x)
  let ?m = "interpolatedChunks p + 1"
  let ?D = "dftSize p"
  let ?len = "length (h ! a)"
  from assms(2) have d: "0 < ?D" by (simp add: pow2_gt1_def)
  from assms(3) have ck: "construct_ok k ?D" .
  from Suc(2) have lt: "n < hop_count p ?len" by simp
  then have lc: "loop_cond ?len (n * ?D)"
    using hop_count_iff [OF d] by (simp add: loop_cond_def)
  then have nl: "\<not> late_disjunct p ?len (n * ?D)"
    by (simp add: loop_cond_def late_disjunct_def)
  have upt: "[n..<hop_count p ?len] = n # [Suc n..<hop_count p ?len]"
    using lt by (simp add: upt_conv_Cons)
  have nxt: "n * ?D + ?D = Suc n * ?D" by simp
  show ?case
  proof (cases "n mod ?m = 0")
    case True
    let ?chunk = "make_chunk p (h ! a) (n * ?D)"
    let ?h1 = "h @ [?chunk]"
    let ?c = "length h"
    have pw: "isPowerOfTwo (length (?h1 ! ?c))"
      using assms(2) by (simp add: pow2_isPowerOfTwo)
    have fwd: "hftnnForward k ?h1 (Some ?c) (Some p) (Some w)
        = (?h1[?c := window_apply (choose_window (Some w) (length (?h1 ! ?c))) (?h1 ! ?c)],
           Inr (forward_frame k p (Some w) (?h1 ! ?c)))"
      by (rule hftnnForward_ok [OF pw ck])
    let ?h2 = "?h1[?c := window_apply (choose_window (Some w) (length (?h1 ! ?c))) (?h1 ! ?c)]"
    have h2a: "?h2 ! a = h ! a" using Suc.prems by (simp add: nth_append)
    have a2: "a < length ?h2" using Suc.prems by simp
    have x: "x = hop_count p (length (?h2 ! a)) - Suc n"
      using Suc(2) h2a by simp
    from Suc(1) [OF x a2, of "acc @ [forward_frame k p (Some w) ?chunk]"]
    obtain h' where h': "chunk_loop k p w a (Suc n * ?D) (Suc n mod ?m) ?h2
          (acc @ [forward_frame k p (Some w) ?chunk])
        = (h', Inr ((acc @ [forward_frame k p (Some w) ?chunk]) @
             map (\<lambda>n'. forward_frame k p (Some w) (make_chunk p (?h2 ! a) (n' * ?D)))
               (kept_hops p (length (?h2 ! a)) (Suc n))))"
      and len: "length ?h2 \<le> length h'" and same: "h' ! a = ?h2 ! a"
      by blast
    have kept: "kept_hops p ?len n = n # kept_hops p ?len (Suc n)"
      using True upt by (simp add: kept_hops_def)
    have "chunk_loop k p w a (n * ?D) (n mod ?m) h acc
        = chunk_loop k p w a (Suc n * ?D) (Suc n mod ?m) ?h2
            (acc @ [forward_frame k p (Some w) ?chunk])"
      apply (subst chunk_loop.simps)
      apply (simp only: lc True if_True alloc_def Let_def fst_conv snd_conv fwd sum.case nxt)
      apply (simp only: next_j_mod [of p n, unfolded True])
      apply simp
      done
    with h' len same h2a kept show ?thesis
      by (simp add: h2a)
  next
    case False
    have x: "x = hop_count p ?len - Suc n" using Suc(2) by simp
    from Suc(1) [OF x Suc.prems, of acc]
    obtain h' where h': "chunk_loop k p w a (Suc n * ?D) (Suc n mod ?m) h acc
        = (h', Inr (acc @ map (\<lambda>n'. forward_frame k p (Some w) (make_chunk p (h ! a) (n' * ?D)))
               (kept_hops p ?len (Suc n))))"
      and len: "length h \<le> length h'" and same: "h' ! a = h ! a"
      by blast
    have kept: "kept_hops p ?len n = kept_hops p ?len (Suc n)"
      using False upt by (simp add: kept_hops_def)
    have "chunk_loop k p w a (n * ?D) (n mod ?m) h acc
        = chunk_loop k p w a (Suc n * ?D) (Suc n mod ?m) h acc"
      apply (subst chunk_loop.simps)
      apply (simp only: lc False nl if_True if_False nxt simp_thms)
      apply (simp only: next_j_mod [of p n])
      done
    with h' len same kept show ?thesis by simp
  qed
qed

text \<open>Properties to run the library on: one harmonic, frames of 8 samples, every second
  hop kept.\<close>

definition demo_props :: HFTNNProperties where
  "demo_props = \<lparr>sampleRate = 8, fundamental = 1, frequenciesInOctave = 1, octaveRange = 1,
         extraBins = 0, interpolatedChunks = 1, dftSize = 8\<rparr>"

lemma pow2_gt1_8: "pow2_gt1 8"
proof -
  have "(8::nat) = 2 ^ 3" by simp
  then show ?thesis unfolding pow2_gt1_def by (intro conjI exI [of _ 3]) simp_all
qed

lemma valid_demo_props: "valid_props demo_props"
  by (simp add: valid_props_def demo_props_def pow2_gt1_8)

lemma chunk_loop_preserves:
  "a < length h \<Longrightarrow>
     length h \<le> length (fst (chunk_loop k p w a i2 j h acc))
     \<and> fst (chunk_loop k p w a i2 j h acc) ! a = h ! a"
proof (induction k p w a i2 j h acc rule: chunk_loop.induct)
  case (1 k p w a i2 j h hftnns)
  let ?ch = "alloc h (make_chunk p (h ! a) i2)"
  let ?r = "hftnnForward k (snd ?ch) (Some (fst ?ch)) (Some p) (Some w)"
  have ra: "fst ?r ! a = h ! a" and rl: "length h \<le> length (fst ?r)" and al: "a < length (fst ?r)"
    using "1.prems" by (simp_all add: alloc_def hftnnForward_other_cell nth_append)
  show ?case
  proof (cases "loop_cond (length (h ! a)) i2")
    case False
    then show ?thesis by (subst (1 2) chunk_loop.simps) simp
  next
    case lc: True
    show ?thesis
    proof (cases "j = 0 \<or> late_disjunct p (length (h ! a)) i2")
      case False
      with lc "1.IH"(2) "1.prems" show ?thesis
        by (subst (1 2) chunk_loop.simps) simp
    next
      case pr: True
      show ?thesis
      proof (cases "snd ?r")
        case (Inl e)
        with lc pr ra rl show ?thesis
          by (subst (1 2) chunk_loop.simps) (simp add: Let_def)
      next
        case (Inr fr)
        from "1.IH"(1) [OF lc pr refl refl Inr al] ra rl
        have "length h \<le> length (fst (chunk_loop k p w a (i2 + dftSize p) (next_j p j) (fst ?r) (hftnns @ [fr])))
          \<and> fst (chunk_loop k p w a (i2 + dftSize p) (next_j p j) (fst ?r) (hftnns @ [fr])) ! a = h ! a"
          by simp
        with lc pr Inr show ?thesis
          by (subst (1 2) chunk_loop.simps) (simp add: Let_def)
      qed
    qed
  qed
qed


lemma forwardTemporal_long:
  assumes "a < length h" and "pow2_gt1 (dftSize p)" and "construct_ok k (dftSize p)"
    and "dftSize p \<le> length (h ! a)"
  shows "snd (hftnnForwardTemporal k h a p)
           = Inr (map (\<lambda>n. forward_frame k p (Some (new_CosineWindow (dftSize p)))
                            (make_chunk p (h ! a) (n * dftSize p)))
                    (kept_hops p (length (h ! a)) 0))"
proof -
  from chunk_loop_result [OF assms(1,2,3), of "new_CosineWindow (dftSize p)" 0 "[]"]
  show ?thesis using assms(4)
    by (auto simp: hftnnForwardTemporal_def)
qed

lemma forwardTemporal_short:
  assumes "pow2_gt1 (dftSize p)" and "construct_ok k (dftSize p)"
    and "length (h ! a) < dftSize p" and "a < length h"
  shows "hftnnForwardTemporal k h a p
           = (h[a := window_apply (new_CosineWindow (dftSize p)) (set_length (dftSize p) (h ! a))],
              Inr [forward_frame k p None (set_length (dftSize p) (h ! a))])"
proof -
  let ?h1 = "h[a := set_length (dftSize p) (h ! a)]"
  have "isPowerOfTwo (length (?h1 ! a))"
    using assms(1,4) by (simp add: pow2_isPowerOfTwo)
  from hftnnForward_ok [OF this assms(2), of None] assms(3,4)
  show ?thesis
    by (simp add: hftnnForwardTemporal_def Let_def choose_window_def)
qed

text \<open>
  Claim C4. For valid properties and a kernel that accepts the size, \<open>hftnnForward\<close> on
  a signal that passes its validation returns an HFTNN of exactly
  \<open>octaveRange * frequenciesInOctave * (2 * extraBins + 1)\<close> entries, whatever the samples
  are; and \<open>hftnnForwardTemporal\<close> returns frames that all have that length.
\<close>
theorem forward_frame_length:
  assumes "valid_props p" and "kernel_ok k" and "a < length h"
  shows "(isPowerOfTwo (length (h ! a)) \<longrightarrow>
            (\<exists>fr. snd (hftnnForward k h (Some a) (Some p) fw) = Inr fr
               \<and> length fr = octaveRange p * frequenciesInOctave p * (2 * extraBins p + 1)))
         \<and> (\<exists>frs. snd (hftnnForwardTemporal k h a p) = Inr frs
               \<and> (\<forall>fr \<in> set frs.
                     length fr = octaveRange p * frequenciesInOctave p * (2 * extraBins p + 1)))"
proof -
  from assms(1) have d: "pow2_gt1 (dftSize p)" by (simp add: valid_props_def)
  with assms(2) have ck: "construct_ok k (dftSize p)" by (simp add: kernel_ok_def)
  have one: "isPowerOfTwo (length (h ! a)) \<longrightarrow>
      (\<exists>fr. snd (hftnnForward k h (Some a) (Some p) fw) = Inr fr
         \<and> length fr = octaveRange p * frequenciesInOctave p * (2 * extraBins p + 1))"
    using ck by (simp add: hftnnForward_ok length_forward_frame frame_length_def)
  have many: "\<exists>frs. snd (hftnnForwardTemporal k h a p) = Inr frs
      \<and> (\<forall>fr \<in> set frs.
            length fr = octaveRange p * frequenciesInOctave p * (2 * extraBins p + 1))"
  proof (cases "length (h ! a) < dftSize p")
    case True
    from forwardTemporal_short [OF d ck True assms(3)] show ?thesis
      by (simp add: length_forward_frame frame_length_def)
  next
    case False
    then have "dftSize p \<le> length (h ! a)" by simp
    from forwardTemporal_long [OF assms(3) d ck this] show ?thesis
      by (auto simp: length_forward_frame frame_length_def)
  qed
  from one many show ?thesis ..
qed

theorem forward_frame_length_witness:
  "valid_props demo_props \<and> kernel_ok dft_kernel \<and> (0::nat) < length [replicate 8 (Num 1)]
   \<and> (\<exists>fr. snd (hftnnForward dft_kernel [replicate 8 (Num 1)] (Some 0) (Some demo_props) None) = Inr fr
          \<and> length fr = 1)
   \<and> (\<exists>frs. snd (hftnnForwardTemporal dft_kernel [replicate 8 (Num 1)] 0 demo_props) = Inr frs
          \<and> list_all (\<lambda>fr. length fr = 1) frs)"
proof -
  have "isPowerOfTwo (length ([replicate 8 (Num 1)] ! 0))"
    by (simp add: isPowerOfTwo_def)
  moreover have "octaveRange demo_props * frequenciesInOctave demo_props
      * (2 * extraBins demo_props + 1) = 1"
    by (simp add: demo_props_def)
  ultimately show ?thesis
    using forward_frame_length [OF valid_demo_props kernel_ok_dft_kernel,
        of 0 "[replicate 8 (Num 1)]" None]
    by (simp add: valid_demo_props kernel_ok_dft_kernel list_all_iff)
qed

text \<open>
  Claim C5. For a signal of at least \<open>dftSize\<close> samples: the second disjunct of the
  condition in the loop is false in every iteration; the loop runs \<open>hop_count\<close> times
  (hop \<open>n\<close> is in the loop exactly for \<open>n\<close> below it); the frames returned are those of
  the hops \<open>n = 0, 1, \<dots>\<close> (offset \<open>n * dftSize / 2\<close>) with \<open>n\<close> a multiple of
  \<open>interpolatedChunks + 1\<close>, in order; and for \<open>interpolatedChunks > 0\<close> they are fewer
  than the hops.
\<close>
theorem forwardTemporal_kept_hops:
  assumes "a < length h" and "valid_props p" and "kernel_ok k"
    and "dftSize p \<le> length (h ! a)"
  shows "(\<forall>i2. loop_cond (length (h ! a)) i2 \<longrightarrow> \<not> late_disjunct p (length (h ! a)) i2)
     \<and> (\<forall>n. n < hop_count p (length (h ! a)) \<longleftrightarrow> loop_cond (length (h ! a)) (n * dftSize p))
     \<and> (\<exists>frs. snd (hftnnForwardTemporal k h a p) = Inr frs
          \<and> frs = map (\<lambda>n. forward_frame k p (Some (new_CosineWindow (dftSize p)))
                            (make_chunk p (h ! a) (n * dftSize p)))
                    (filter (\<lambda>n. n mod (interpolatedChunks p + 1) = 0)
                       [0..<hop_count p (length (h ! a))])
          \<and> (0 < interpolatedChunks p \<longrightarrow> length frs < hop_count p (length (h ! a))))"
proof -
  let ?len = "length (h ! a)"
  let ?m = "interpolatedChunks p + 1"
  from assms(2) have d: "pow2_gt1 (dftSize p)" by (simp add: valid_props_def)
  with assms(3) have ck: "construct_ok k (dftSize p)" by (simp add: kernel_ok_def)
  from d have d1: "1 < dftSize p" by (simp add: pow2_gt1_def)
  have dead: "\<forall>i2. loop_cond ?len i2 \<longrightarrow> \<not> late_disjunct p ?len i2"
    by (simp add: loop_cond_def late_disjunct_def)
  have res: "snd (hftnnForwardTemporal k h a p)
      = Inr (map (\<lambda>n. forward_frame k p (Some (new_CosineWindow (dftSize p)))
                       (make_chunk p (h ! a) (n * dftSize p)))
               (filter (\<lambda>n. n mod ?m = 0) [0..<hop_count p ?len]))"
    using forwardTemporal_long [OF assms(1) d ck assms(4)] by (simp add: kept_hops_def)
  have fewer: "length (filter (\<lambda>n. n mod ?m = 0) [0..<hop_count p ?len]) < hop_count p ?len"
    if ic: "0 < interpolatedChunks p"
  proof -
    have "1 * dftSize p < 2 * ?len" using assms(4) d1 by simp
    then have "1 < hop_count p ?len"
      using hop_count_iff [of p 1 ?len] d1 by simp
    then have "1 \<in> set [0..<hop_count p ?len]" by simp
    moreover have "\<not> (1 mod ?m = 0)" using ic by simp
    ultimately have "length (filter (\<lambda>n. n mod ?m = 0) [0..<hop_count p ?len])
        < length [0..<hop_count p ?len]"
      by (rule length_filter_less)
    then show ?thesis by simp
  qed
  have hops: "\<forall>n. n < hop_count p ?len \<longleftrightarrow> loop_cond ?len (n * dftSize p)"
    using hop_count_iff [of p _ ?len] d1 by (simp add: loop_cond_def)
  from dead hops res fewer show ?thesis by simp
qed

theorem forwardTemporal_kept_hops_witness:
  "(0::nat) < length [replicate 16 (Num 1)] \<and> valid_props demo_props \<and> kernel_ok dft_kernel
   \<and> dftSize demo_props \<le> length ([replicate 16 (Num 1)] ! 0)
   \<and> hop_count demo_props 16 = 4
   \<and> (\<exists>frs. snd (hftnnForwardTemporal dft_kernel [replicate 16 (Num 1)] 0 demo_props) = Inr frs
         \<and> length frs = 2)"
proof -
  have a: "(0::nat) < length [replicate 16 (Num 1)]" by simp
  have b: "dftSize demo_props \<le> length ([replicate 16 (Num 1)] ! 0)"
    by (simp add: demo_props_def)
  have c: "hop_count demo_props 16 = 4" by (simp add: hop_count_def demo_props_def)
  have e: "filter (\<lambda>n. n mod (interpolatedChunks demo_props + 1) = 0) [0..<4] = [0, 2]"
    by code_simp
  from forwardTemporal_kept_hops [OF a valid_demo_props kernel_ok_dft_kernel b]
  show ?thesis
    using a b c e by (auto simp: valid_demo_props kernel_ok_dft_kernel)
qed

section \<open>Validation, chunks and the caller's array\<close>

lemma upt_8: "[0..<8] = [0, 1, 2, 3, 4, 5, 6, 7]"
  by code_simp

lemma hftnnForward_kernel_failure:
  assumes "isPowerOfTwo (length (h ! a))" and "\<not> construct_ok k (dftSize p)"
  shows "hftnnForward k h (Some a) (Some p) fw = (h, Inl KernelFailure)"
  using assms by (simp add: hftnnForward_def)

text \<open>
  Claim C6. \<open>hftnnForward\<close> raises an error of its own validation exactly when the
  signal is absent, or the length of the signal is not a power of two greater than 1, or
  the properties are absent. (The length of an array is below \<open>2^32\<close>.)
\<close>

theorem hftnnForward_InvalidInput_iff:
  assumes "\<And>a. signal = Some a \<Longrightarrow> length (h ! a) < 2 ^ 32"
  shows "(\<exists>msg. snd (hftnnForward k h signal properties fw) = Inl (InvalidInput msg))
     \<longleftrightarrow> (signal = None \<or> (\<exists>a. signal = Some a \<and> \<not> pow2_gt1 (length (h ! a)))
          \<or> properties = None)"
  using assms 
  by (auto simp: hftnnForward_def Let_def pow2_isPowerOfTwo isPowerOfTwo_pow2 split: option.splits)

theorem hftnnForward_InvalidInput_iff_witness:
  "length ([replicate 6 (Num 0)] ! 0) < 2 ^ 32 \<and> \<not> pow2_gt1 6
   \<and> (\<exists>msg. snd (hftnnForward dft_kernel [replicate 6 (Num 0)] (Some 0) (Some demo_props) None)
          = Inl (InvalidInput msg))"
proof -
  have a: "\<And>a. Some (0::nat) = Some a \<Longrightarrow> length ([replicate 6 (Num 0)] ! a) < 2 ^ 32"
    by simp
  have "\<not> isPowerOfTwo 6" by (simp add: isPowerOfTwo_def)
  then have b: "\<not> pow2_gt1 6" using pow2_isPowerOfTwo by blast
  with hftnnForward_InvalidInput_iff [of "Some 0" "[replicate 6 (Num 0)]" dft_kernel "Some demo_props" None, OF a]
  show ?thesis by simp
qed

text \<open>
  Claim C10. When \<open>dftSize\<close> is a power of two greater than 1, every array that
  \<open>hftnnForwardTemporal\<close> passes to \<open>hftnnForward\<close> (a chunk of the loop, or the
  lengthened signal) has exactly \<open>dftSize\<close> elements, and no error of the validation
  of \<open>hftnnForward\<close> comes out of \<open>hftnnForwardTemporal\<close>.
\<close>

theorem forwardTemporal_chunks_accepted:
  assumes "a < length h" and "pow2_gt1 (dftSize p)"
  shows "(\<forall>i2. length (make_chunk p (h ! a) i2) = dftSize p)
     \<and> length (set_length (dftSize p) (h ! a)) = dftSize p
     \<and> (\<forall>msg. snd (hftnnForwardTemporal k h a p) \<noteq> Inl (InvalidInput msg))"
proof -
  let ?D = "dftSize p"
  from assms(2) have d1: "1 < ?D" by (simp add: pow2_gt1_def)
  have "snd (hftnnForwardTemporal k h a p) \<noteq> Inl (InvalidInput msg)" for msg
  proof (cases "construct_ok k ?D")
    case True
    show ?thesis
    proof (cases "length (h ! a) < ?D")
      case True
      from forwardTemporal_short [OF assms(2) \<open>construct_ok k ?D\<close> True assms(1)]
      show ?thesis by simp
    next
      case False
      then have "?D \<le> length (h ! a)" by simp
      from forwardTemporal_long [OF assms(1,2) True this] show ?thesis by simp
    qed
  next
    case False
    show ?thesis
    proof (cases "length (h ! a) < ?D")
      case True
      let ?h1 = "h[a := set_length ?D (h ! a)]"
      have "isPowerOfTwo (length (?h1 ! a))"
        using assms by (simp add: pow2_isPowerOfTwo)
      from hftnnForward_kernel_failure [OF this False, of None] True
      show ?thesis by (simp add: hftnnForwardTemporal_def Let_def)
    next
      case short: False
      let ?w = "new_CosineWindow ?D"
      let ?h1 = "h @ [make_chunk p (h ! a) 0]"
      have "isPowerOfTwo (length (?h1 ! length h))"
        using assms by (simp add: pow2_isPowerOfTwo)
      moreover from short d1 have "0 < length (h ! a)" by linarith
      ultimately have "snd (chunk_loop k p ?w a 0 0 h []) = Inl KernelFailure"
        using hftnnForward_kernel_failure [OF _ False, of "?h1" "length h" "Some ?w"]
        by (subst chunk_loop.simps) (simp add: loop_cond_def alloc_def Let_def)
      with short show ?thesis by (simp add: hftnnForwardTemporal_def)
    qed
  qed
  then show ?thesis by simp
qed

theorem forwardTemporal_chunks_accepted_witness:
  "(0::nat) < length [[Num 1, Num 2, Num 3]] \<and> pow2_gt1 (dftSize demo_props)
   \<and> length (make_chunk demo_props ([[Num 1, Num 2, Num 3]] ! 0) 0) = 8
   \<and> snd (hftnnForwardTemporal dft_kernel [[Num 1, Num 2, Num 3]] 0 demo_props)
        \<noteq> Inl (InvalidInput ''The given signals length must be a power of two and higher than 1.'')"
proof -
  have a: "(0::nat) < length [[Num 1, Num 2, Num 3]]" by simp
  have b: "pow2_gt1 (dftSize demo_props)" using valid_demo_props by (simp add: valid_props_def)
  have c: "dftSize demo_props = 8" by (simp add: demo_props_def)
  from forwardTemporal_chunks_accepted [OF a b, of dft_kernel] a b c
  show ?thesis by auto
qed

text \<open>
  Claim C9. The caller's array is the same after \<open>hftnnForwardTemporal\<close> exactly when it
  has at least \<open>dftSize\<close> samples. A shorter array has \<open>dftSize\<close> elements after the
  call, and (for valid properties) each of its original samples has been multiplied by
  the coefficient of the window at its index.
\<close>

theorem forwardTemporal_caller_array:
  assumes "a < length h"
  shows "(fst (hftnnForwardTemporal k h a p) ! a = h ! a \<longleftrightarrow> dftSize p \<le> length (h ! a))
     \<and> (length (h ! a) < dftSize p \<longrightarrow>
           length (fst (hftnnForwardTemporal k h a p) ! a) = dftSize p)
     \<and> (length (h ! a) < dftSize p \<and> valid_props p \<and> kernel_ok k \<longrightarrow>
           (\<forall>i < length (h ! a). fst (hftnnForwardTemporal k h a p) ! a ! i
               = jmul (h ! a ! i) (cosine_multiplier (dftSize p) i)))"
proof -
  let ?D = "dftSize p"
  let ?h1 = "h[a := set_length ?D (h ! a)]"
  have long: "fst (hftnnForwardTemporal k h a p) ! a = h ! a" if "?D \<le> length (h ! a)"
    using that chunk_loop_preserves [OF assms] by (simp add: hftnnForwardTemporal_def)
  have len: "length (fst (hftnnForwardTemporal k h a p) ! a) = ?D" if "length (h ! a) < ?D"
  proof -
    have "length (fst (hftnnForward k ?h1 (Some a) (Some p) None) ! a) = ?D"
      using assms by (auto simp: hftnnForward_def Let_def)
    with that show ?thesis by (simp add: hftnnForwardTemporal_def Let_def)
  qed
  have mult: "fst (hftnnForwardTemporal k h a p) ! a ! i
      = jmul (h ! a ! i) (cosine_multiplier ?D i)"
    if "length (h ! a) < ?D" and "valid_props p" and "kernel_ok k" and "i < length (h ! a)" for i
  proof -
    from that(2) have d: "pow2_gt1 ?D" by (simp add: valid_props_def)
    with that(3) have ck: "construct_ok k ?D" by (simp add: kernel_ok_def)
    from forwardTemporal_short [OF d ck that(1) assms] assms that(1,4)
    show ?thesis
      by (simp add: window_apply_def new_CosineWindow_def aget_def set_length_def nth_append)
  qed
  from long len mult show ?thesis
    by (metis leI less_irrefl_nat)
qed


theorem forwardTemporal_caller_array_witness:
  "(0::nat) < length [[Num 1, Num 2, Num 3]]
   \<and> length ([[Num 1, Num 2, Num 3]] ! 0) < dftSize demo_props
   \<and> valid_props demo_props \<and> kernel_ok dft_kernel
   \<and> length (fst (hftnnForwardTemporal dft_kernel [[Num 1, Num 2, Num 3]] 0 demo_props) ! 0) = 8
   \<and> fst (hftnnForwardTemporal dft_kernel [[Num 1, Num 2, Num 3]] 0 demo_props) ! 0 ! 1
         = Num (2 * sin (pi / 7))
   \<and> fst (hftnnForwardTemporal dft_kernel [[Num 1, Num 2, Num 3]] 0 demo_props) ! 0
         \<noteq> [[Num 1, Num 2, Num 3]] ! 0"
proof -
  have a: "(0::nat) < length [[Num 1, Num 2, Num 3]]" by simp
  have dsz: "dftSize demo_props = 8" by (simp add: demo_props_def)
  have m: "jmul (Num 2) (cosine_multiplier 8 1) = Num (2 * sin (pi / 7))"
    by (simp add: cosine_multiplier_def)
  from forwardTemporal_caller_array [OF a, of dft_kernel demo_props]
  show ?thesis
    using valid_demo_props kernel_ok_dft_kernel m by (simp add: dsz)
qed

text \<open>The chunks of the loop are padded with zeros.\<close>

lemma make_chunk_zero_padded:
  assumes "length (slice (i2 div 2) ((i2 + 2 * dftSize p) div 2) signal) \<le> i" and "i < dftSize p"
  shows "make_chunk p signal i2 ! i = Num 0"
proof -
  have "length (slice (i2 div 2) ((i2 + 2 * dftSize p) div 2) signal) \<le> dftSize p"
    using assms by simp
  with assms show ?thesis
    by (simp add: make_chunk_def Let_def fill_from_def set_length_def nth_append)
qed

lemma jsum_NaN: "NaN \<in> set xs \<Longrightarrow> jsum xs = NaN"
proof (induction xs)
  case Nil
  then show ?case by simp
next
  case (Cons x xs)
  show ?case
  proof (cases "NaN \<in> set xs")
    case True
    with Cons.IH have "foldr jadd xs (Num 0) = NaN" by (simp add: jsum_def)
    then show ?thesis by (cases x) (simp_all add: jsum_def)
  next
    case False
    with Cons.prems have "x = NaN" by simp
    then show ?thesis by (simp add: jsum_def)
  qed
qed

text \<open>
  Claim C3, evaluated on the signal \<open>[1, 2, 3]\<close> with \<open>dftSize = 8\<close>. One frame is
  returned, from one call of \<open>hftnnForward\<close>. The array is lengthened by assigning its
  length, which leaves the five new slots empty; the window turns them into \<open>NaN\<close>, and
  that is what the transform receives (with the reference kernel the frame is \<open>NaN\<close>).
\<close>

theorem short_signal_padding:
  "hftnnForwardTemporal dft_kernel [[Num 1, Num 2, Num 3]] 0 demo_props
     = ([[Num 0, Num (2 * sin (pi / 7)), Num (3 * sin (pi * 2 / 7)), NaN, NaN, NaN, NaN, NaN]],
        Inr [[(NaN, NaN)]])"
proof -
  have ck: "construct_ok dft_kernel (dftSize demo_props)"
    using kernel_ok_dft_kernel valid_demo_props by (simp add: kernel_ok_def valid_props_def)
  have d: "pow2_gt1 (dftSize demo_props)" using valid_demo_props by (simp add: valid_props_def)
  let ?w = "[Num 0, Num (2 * sin (pi / 7)), Num (3 * sin (pi * 2 / 7)), NaN, NaN, NaN, NaN, NaN]"
  have w: "window_apply (new_CosineWindow 8) (set_length 8 [Num 1, Num 2, Num 3]) = ?w"
    by (simp add: window_apply_def new_CosineWindow_def set_length_def upt_8 aget_def
        cosine_multiplier_def)
  have tr: "dft_forward 8 ?w i = NaN" for i
    unfolding dft_forward_def by (rule jsum_NaN) (simp add: upt_8 aget_def)
  have fr: "forward_frame dft_kernel demo_props None (set_length 8 [Num 1, Num 2, Num 3])
      = [(NaN, NaN)]"
    apply (simp add: forward_frame_def choose_window_def w)
    apply (simp add: dft_kernel_def demo_props_def tr kernel_output_def createComplexArray_def)
    apply (simp add: harvest_def interval_step_def low_offsets_def high_offsets_def
        center_step_def computeBin_def new_bins_def harmonic_bin_def intervalToFreq_def
        freqToFftBin_def aget_def Let_def tr)
    done
  have dsz: "dftSize demo_props = 8" by (simp add: demo_props_def)
  have "hftnnForwardTemporal dft_kernel [[Num 1, Num 2, Num 3]] 0 demo_props
      = ([[Num 1, Num 2, Num 3]]
           [0 := window_apply (new_CosineWindow (dftSize demo_props))
                   (set_length (dftSize demo_props) ([[Num 1, Num 2, Num 3]] ! 0))],
         Inr [forward_frame dft_kernel demo_props None
                (set_length (dftSize demo_props) ([[Num 1, Num 2, Num 3]] ! 0))])"
    by (rule forwardTemporal_short [OF d ck]) (simp_all add: dsz)
  then show ?thesis
    by (simp add: dsz w fr)
qed

section \<open>The entries that hftnnForward emits\<close>

text \<open>The spectrum that \<open>hftnnForward\<close> harvests: the output of the kernel for the
  windowed signal.\<close>

definition forward_spectrum ::
  "fft_kernel \<Rightarrow> HFTNNProperties \<Rightarrow> CosineWindow option \<Rightarrow> jsval list \<Rightarrow> jsval list" where
  "forward_spectrum k p fw xs =
     kernel_output (realTransform k (dftSize p) (window_apply (choose_window fw (length xs)) xs))
       (createComplexArray (dftSize p))"

text \<open>The polar form of the spectrum at bin \<open>idx\<close>; a bin past the end of the spectrum
  reads \<open>undefined\<close> and gives \<open>(NaN, NaN)\<close>.\<close>

definition polar_at :: "jsval list \<Rightarrow> int \<Rightarrow> jsval \<times> jsval" where
  "polar_at transform idx =
     fftBinToMagnitudePhase (aget transform (idx * 2)) (aget transform (idx * 2 + 1))"






















lemma sqrt_4: "sqrt 4 = 2"
  using real_sqrt_abs [of 2] by simp

lemma nyquist_polar: "fftBinToMagnitudePhase (Num (- (sqrt 3 / 2))) (Num 0) = (Num (sqrt 3 / 2), Num pi)"
  by (simp add: atan2_def real_sqrt_divide sqrt_4)

lemma length_forward_spectrum [simp]: "length (forward_spectrum k p fw xs) = 2 * dftSize p"
  by (simp add: forward_spectrum_def kernel_output_def createComplexArray_def)




text \<open>An unguarded index at or past \<open>dftSize\<close> reads past the spectrum.\<close>

lemma polar_at_beyond: "int (length tr) \<le> idx * 2 \<Longrightarrow> polar_at tr idx = (NaN, NaN)"
  by (simp add: polar_at_def aget_def)



section \<open>What hftnnInverse returns\<close>

lemma scatter_ok:
  "snd st + length offs \<le> length hft \<Longrightarrow> \<exists>st'. scatter hft baseBin offs st = Inr st'"
  by (induction offs arbitrary: st) (simp_all add: Let_def)

lemma inverse_loop_ok:
  assumes "i + c * (2 * extraBins p + 1) = length hft"
  shows "\<exists>bins'. inverse_loop p hft i interval bins = Inr bins'"
  using assms
proof (induction c arbitrary: i interval bins)
  case 0
  then show ?case by simp
next
  case (Suc c)
  let ?offs = "low_offsets (extraBins p) @ [0] @ high_offsets (extraBins p)"
  have lo: "length ?offs = 2 * extraBins p + 1"
    by (simp add: low_offsets_def high_offsets_def)
  from Suc.prems have lt: "i < length hft" and "i + (2 * extraBins p + 1) \<le> length hft"
    by simp_all
  then have fit: "i + length ?offs \<le> length hft"
    by (simp only: lo)
  from scatter_ok [of "(bins, i)" ?offs hft "harmonic_bin p (dftSize p) interval"] fit
  obtain st' where s: "scatter hft (harmonic_bin p (dftSize p) interval) ?offs (bins, i) = Inr st'"
    by auto
  from scatter_index [OF s] have "snd st' = i + (2 * extraBins p + 1)"
    by (simp only: lo snd_conv)
  with Suc.prems have "snd st' + c * (2 * extraBins p + 1) = length hft" by simp
  from Suc.IH [OF this, of "Suc interval" "fst st'"] lt s show ?case
    by simp
qed

text \<open>
  Claim C1, amended. For valid properties and a frame of the valid length,
  \<open>hftnnInverse\<close> returns a copy of the whole output array of the inverse kernel: the
  \<open>2 * dftSize\<close> interleaved numbers \<open>[re0, im0, re1, im1, \<dots>]\<close>, imaginary components
  included (\<open>step(inverse, 1)\<close> copies every element).
\<close>

theorem hftnnInverse_returns_interleaved:
  assumes "valid_props p" and "kernel_ok k"
    and "length hft = octaveRange p * frequenciesInOctave p * (2 * extraBins p + 1)"
  shows "\<exists>bins out. inverse_loop p hft 0 0 (createComplexArray (dftSize p)) = Inr bins
           \<and> hftnnInverse k (Some hft) (Some p) = Inr out
           \<and> out = map (inverseTransform k (dftSize p) bins) [0..<2 * dftSize p]
           \<and> length out = 2 * dftSize p"
proof -
  from assms(1,2) have ck: "construct_ok k (dftSize p)"
    by (simp add: kernel_ok_def valid_props_def)
  from assms(3) have "0 + (octaveRange p * frequenciesInOctave p) * (2 * extraBins p + 1) = length hft"
    by simp
  from inverse_loop_ok [OF this, of 0 "createComplexArray (dftSize p)"]
  obtain bins where b: "inverse_loop p hft 0 0 (createComplexArray (dftSize p)) = Inr bins"
    by blast
  with ck have "hftnnInverse k (Some hft) (Some p)
      = Inr (map (inverseTransform k (dftSize p) bins) [0..<2 * dftSize p])"
    by (simp add: hftnnInverse_def step_def kernel_output_def createComplexArray_def mult.commute)
  with b show ?thesis by simp
qed

theorem hftnnInverse_returns_interleaved_witness:
  "valid_props demo_props \<and> kernel_ok dft_kernel
   \<and> length [(Num 0, Num 0)]
        = octaveRange demo_props * frequenciesInOctave demo_props * (2 * extraBins demo_props + 1)
   \<and> (\<exists>out. hftnnInverse dft_kernel (Some [(Num 0, Num 0)]) (Some demo_props) = Inr out
          \<and> length out = 16)"
proof -
  have l: "length [(Num 0, Num 0)]
      = octaveRange demo_props * frequenciesInOctave demo_props * (2 * extraBins demo_props + 1)"
    by (simp add: demo_props_def)
  have dsz: "dftSize demo_props = 8" by (simp add: demo_props_def)
  from hftnnInverse_returns_interleaved [OF valid_demo_props kernel_ok_dft_kernel l]
  obtain out where "hftnnInverse dft_kernel (Some [(Num 0, Num 0)]) (Some demo_props) = Inr out"
    and "length out = 2 * dftSize demo_props"
    by blast
  then have "\<exists>out. hftnnInverse dft_kernel (Some [(Num 0, Num 0)]) (Some demo_props) = Inr out
      \<and> length out = 16"
    by (simp add: dsz)
  with valid_demo_props kernel_ok_dft_kernel l show ?thesis
    by (intro conjI)
qed

lemma replicate_update_same: "(replicate n x)[i := x] = replicate n x"
proof (cases "i < n")
  case True
  then show ?thesis by (simp add: list_eq_iff_nth_eq nth_list_update)
next
  case False
  then show ?thesis by (simp add: list_update_beyond)
qed

lemma jsum_zeros: "set xs \<subseteq> {Num 0} \<Longrightarrow> jsum xs = Num 0"
  by (induction xs) (auto simp: jsum_def)

lemma dft_inverse_zero:
  assumes "\<forall>b < n. aget data (2 * int b) = Num 0 \<and> aget data (2 * int b + 1) = Num 0"
  shows "dft_inverse n data i = Num 0"
proof -
  have "jsum (map (\<lambda>b. if even i
                       then jsub (jmul (aget data (2 * int b))
                                    (Num (cos (2 * pi * real b * real (i div 2) / real n))))
                                 (jmul (aget data (2 * int b + 1))
                                    (Num (sin (2 * pi * real b * real (i div 2) / real n))))
                       else jadd (jmul (aget data (2 * int b))
                                    (Num (sin (2 * pi * real b * real (i div 2) / real n))))
                                 (jmul (aget data (2 * int b + 1))
                                    (Num (cos (2 * pi * real b * real (i div 2) / real n)))))
               [0..<n]) = Num 0"
    by (rule jsum_zeros) (use assms in auto)
  then show ?thesis by (simp add: dft_inverse_def)
qed

text \<open>
  Claim C1 as stated fails: with \<open>dftSize = 8\<close>, one octave, one frequency and no extra
  bins, \<open>hftnnInverse([[0, 0]])\<close> is an array of 16 zeros, not of 8 samples.
\<close>

theorem hftnnInverse_zero_frame:
  "hftnnInverse dft_kernel (Some [(Num 0, Num 0)]) (Some demo_props) = Inr (replicate 16 (Num 0))
   \<and> dftSize demo_props = 8"
proof -
  have ck: "construct_ok dft_kernel (dftSize demo_props)"
    using kernel_ok_dft_kernel valid_demo_props by (simp add: kernel_ok_def valid_props_def)
  have dsz: "dftSize demo_props = 8" by (simp add: demo_props_def)
  have e: "extraBins demo_props = 0" by (simp add: demo_props_def)
  have bin: "harmonic_bin demo_props 8 0 = 1"
    by (simp add: harmonic_bin_def demo_props_def intervalToFreq_def freqToFftBin_def)
  have loop: "inverse_loop demo_props [(Num 0, Num 0)] 0 0 (createComplexArray 8)
      = Inr (replicate 16 (Num 0))"
    by (simp add: dsz e bin low_offsets_def high_offsets_def createComplexArray_def aset_def
        replicate_update_same)
  have z: "dft_inverse 8 (replicate 16 (Num 0)) i = Num 0" for i
    by (rule dft_inverse_zero) (simp add: aget_def)
  have "map (dft_inverse 8 (replicate 16 (Num 0))) [0..<16] = replicate 16 (Num 0)"
    by (simp add: list_eq_iff_nth_eq z)
  with ck loop show ?thesis
    by (simp add: hftnnInverse_def dsz dft_kernel_def step_def kernel_output_def
        createComplexArray_def)
qed

end
